theory Spec2Isabelle
  imports Complex_Main "HOL-Library.Word"
begin

unbundle bit_operations_syntax

section \<open>Errors\<close>

text \<open>
  The exceptions the module can raise, as values.
  \<^item> \<open>InvalidAudioLength\<close>: the \<open>ValueError\<close> of \<open>np.frombuffer\<close> (buffer size not a
    multiple of the element size);
  \<^item> \<open>ValueError\<close>: every other NumPy shape error (negative dimension, slice assignment
    that cannot be broadcast);
  \<^item> \<open>ZeroDivisionError\<close>: \<open>//\<close> or \<open>/\<close> by zero;
  \<^item> \<open>KeyError\<close>: a dictionary lookup that misses.
  An exception ends the call: the state of the object after it is not modelled.
\<close>

datatype error = InvalidAudioLength | ValueError | ZeroDivisionError | KeyError

section \<open>Audio codec\<close>

type_synonym byte = "8 word"
type_synonym int16 = "16 word"

definition MAX_WAV_VALUE :: int where
  "MAX_WAV_VALUE = 32768"

text \<open>One element of dtype \<open><i2\<close>: low byte first.\<close>

definition le_i2 :: "byte \<Rightarrow> byte \<Rightarrow> int16" where
  "le_i2 lo hi = push_bit 8 (ucast hi) OR ucast lo"

text \<open>\<open>np.frombuffer(audio_buffer, dtype="<i2")\<close> on a buffer of even length.\<close>

fun frombuffer_i2 :: "byte list \<Rightarrow> int16 list" where
  "frombuffer_i2 (lo # hi # bs) = le_i2 lo hi # frombuffer_i2 bs"
| "frombuffer_i2 _ = []"

text \<open>
  \<open>buffer_to_audio\<close>: \<open>np.frombuffer\<close> raises when the length is not a multiple of 2;
  otherwise every 16-bit value is divided by \<open>float(MAX_WAV_VALUE)\<close>. The quotient of a
  16-bit integer by \<open>2 ^ 15\<close> is exact in float32, so the samples are the rationals
  themselves.
\<close>

definition buffer_to_audio :: "byte list \<Rightarrow> error + real list" where
  "buffer_to_audio audio_buffer =
     (if length audio_buffer mod 2 \<noteq> 0 then Inl InvalidAudioLength
      else Inr (map (\<lambda>w. real_of_int (sint w) / real_of_int MAX_WAV_VALUE)
                    (frombuffer_i2 audio_buffer)))"

text \<open>Python's \<open>int(x)\<close> and C's conversion of a float to an integer: towards zero.\<close>

definition py_int :: "real \<Rightarrow> int" where
  "py_int x = (if 0 \<le> x then \<lfloor>x\<rfloor> else \<lceil>x\<rceil>)"

text \<open>
  \<open>.astype("<i2")\<close> on a float: the C conversion \<open>(npy_short) x\<close>. It truncates towards
  zero; the value goes through a 32-bit integer whose low 16 bits are kept, so a value
  outside the 16-bit range wraps around. Outside the 32-bit range the result depends on the
  platform and is left undefined here (\<open>None\<close>).
\<close>

definition astype_i2 :: "real \<Rightarrow> int16 option" where
  "astype_i2 x =
     (let t = py_int x
      in if - (2 ^ 31) \<le> t \<and> t < 2 ^ 31 then Some (word_of_int t) else None)"

text \<open>\<open>.tobytes()\<close> of one \<open><i2\<close> element.\<close>

definition tobytes_i2 :: "int16 \<Rightarrow> byte list" where
  "tobytes_i2 w = [ucast w, ucast (drop_bit 8 w)]"

text \<open>
  \<open>audio_to_buffer\<close>: \<open>(audio * MAX_WAV_VALUE).astype("<i2").tobytes()\<close>, element by
  element. The product with \<open>2 ^ 15\<close> is exact in floating point.
\<close>

definition encode_sample :: "real \<Rightarrow> int16 option" where
  "encode_sample x = astype_i2 (x * real_of_int MAX_WAV_VALUE)"

fun audio_to_buffer :: "real list \<Rightarrow> byte list option" where
  "audio_to_buffer [] = Some []"
| "audio_to_buffer (x # xs) =
     (case encode_sample x of
        None \<Rightarrow> None
      | Some w \<Rightarrow> map_option ((@) (tobytes_i2 w)) (audio_to_buffer xs))"

text \<open>Decoding a buffer and encoding the samples again.\<close>

definition decode_encode :: "byte list \<Rightarrow> byte list option" where
  "decode_encode b =
     (case buffer_to_audio b of Inl e \<Rightarrow> None | Inr audio \<Rightarrow> audio_to_buffer audio)"

section \<open>Listener parameters\<close>

record ListenerParams =
  buffer_t :: real
  window_t :: real
  hop_t :: real
  sample_rate :: int
  sample_depth :: int
  n_fft :: int
  n_filt :: int
  n_mfcc :: int
  use_delta :: bool
  vectorizer :: int
  threshold_config :: "int list list"
  threshold_center :: real

text \<open>
  The dataclass defaults. The durations are floats in the source; here they are the
  rationals that their literals denote, and the arithmetic of the properties is exact.
\<close>

definition ListenerParams_default :: ListenerParams where
  "ListenerParams_default =
     \<lparr> buffer_t = 3 / 2, window_t = 1 / 10, hop_t = 1 / 20, sample_rate = 16000,
       sample_depth = 2, n_fft = 512, n_filt = 20, n_mfcc = 13, use_delta = False,
       vectorizer = 2, threshold_config = [[6, 4]], threshold_center = 1 / 5 \<rparr>"

definition window_samples :: "ListenerParams \<Rightarrow> int" where
  "window_samples p = py_int (real_of_int (sample_rate p) * window_t p + 1 / 2)"

definition hop_samples :: "ListenerParams \<Rightarrow> int" where
  "hop_samples p = py_int (real_of_int (sample_rate p) * hop_t p + 1 / 2)"

definition buffer_samples :: "ListenerParams \<Rightarrow> error + int" where
  "buffer_samples p =
     (let samples = py_int (real_of_int (sample_rate p) * buffer_t p + 1 / 2)
      in if hop_samples p = 0 then Inl ZeroDivisionError
         else Inr (hop_samples p * (samples div hop_samples p)))"

definition n_features :: "ListenerParams \<Rightarrow> error + int" where
  "n_features p =
     (case buffer_samples p of
        Inl e \<Rightarrow> Inl e
      | Inr bs \<Rightarrow>
          if hop_samples p = 0 then Inl ZeroDivisionError
          else Inr (1 + \<lfloor>real_of_int (bs - window_samples p) / real_of_int (hop_samples p)\<rfloor>))"

definition max_samples :: "ListenerParams \<Rightarrow> int" where
  "max_samples p = py_int (buffer_t p * real_of_int (sample_rate p))"

definition feature_size :: "ListenerParams \<Rightarrow> error + int" where
  "feature_size p =
     (if vectorizer p = 2 \<or> vectorizer p = 3 then
        Inr (if use_delta p then n_mfcc p * 2 else n_mfcc p)
      else if vectorizer p = 1 then
        Inr (if use_delta p then n_filt p * 2 else n_filt p)
      else Inl KeyError)"

section \<open>The engine\<close>

text \<open>
  The two external collaborators are parameters of the model: \<open>mfcc_spec\<close> of sonopy
  (audio, sample rate, (window, hop), number of filters, FFT size, number of coefficients)
  returns the feature frames as rows; the TFLite interpreter (\<open>set_tensor\<close>, \<open>invoke\<close>,
  \<open>get_tensor\<close>, \<open>raw_output[0][0]\<close>) maps the rolling window to one number. Both are pure
  functions of their arguments. Floats are the reals they denote.
\<close>

type_synonym extractor =
  "real list \<Rightarrow> int \<Rightarrow> int \<times> int \<Rightarrow> int \<Rightarrow> int \<Rightarrow> int \<Rightarrow> real list list"

type_synonym scorer = "real list list \<Rightarrow> real"

text \<open>
  The attributes of \<open>TFLiteHotWordEngine\<close>. \<open>inputs\<close> is the array of shape
  \<open>(1, n_features, n_mfcc)\<close> as the list of its rows along axis 1.
\<close>

record engine =
  sensitivity :: real
  trigger_level :: int
  chunk_size :: int
  params :: ListenerParams
  inputs :: "real list list"
  inputs_idx :: int
  window_bytes :: int
  hop_bytes :: int
  chunk_buffer :: "byte list"
  activation :: int
  is_found :: bool
  probability :: "real option"

text \<open>\<open>np.zeros((1, n, f))\<close>: a negative dimension raises.\<close>

definition zeros :: "int \<Rightarrow> int \<Rightarrow> error + real list list" where
  "zeros n f =
     (if n < 0 \<or> f < 0 then Inl ValueError
      else Inr (replicate (nat n) (replicate (nat f) 0)))"

text \<open>
  \<open>_load_model\<close>: the parameters are always \<open>ListenerParams()\<close>; loading the
  interpreter is outside the model.
\<close>

definition load_model :: "engine \<Rightarrow> error + engine" where
  "load_model s =
     (let p = ListenerParams_default;
          s1 = s\<lparr>params := p,
                 window_bytes := window_samples p * sample_depth p,
                 hop_bytes := hop_samples p * sample_depth p\<rparr>
      in case n_features p of
           Inl e \<Rightarrow> Inl e
         | Inr n \<Rightarrow>
             (case zeros n (n_mfcc p) of
                Inl e \<Rightarrow> Inl e
              | Inr z \<Rightarrow> Inr (s1\<lparr>inputs := z\<rparr>)))"

text \<open>
  \<open>__init__\<close>, with the three values that \<open>config.get\<close> resolved. Before
  \<open>_load_model\<close> the parameters and the window are \<open>None\<close>; the placeholders below are
  overwritten by it.
\<close>

definition init :: "real \<Rightarrow> int \<Rightarrow> int \<Rightarrow> error + engine" where
  "init sens lvl csz =
     (case load_model
             \<lparr> sensitivity = sens, trigger_level = lvl, chunk_size = csz,
               params = ListenerParams_default, inputs = [], inputs_idx = 0,
               window_bytes = 0, hop_bytes = 0, chunk_buffer = [],
               activation = 0, is_found = False, probability = None \<rparr> of
        Inl e \<Rightarrow> Inl e
      | Inr s \<Rightarrow> Inr (s\<lparr>probability := None\<rparr>))"

text \<open>Python's \<open>xs[a:]\<close>.\<close>

definition py_from :: "int \<Rightarrow> 'a list \<Rightarrow> 'a list" where
  "py_from a xs =
     (if a < 0 then drop (nat (max 0 (int (length xs) + a))) xs else drop (nat a) xs)"

text \<open>Python's normalisation of one bound of a slice over \<open>n\<close> elements.\<close>

definition slice_bound :: "int \<Rightarrow> int \<Rightarrow> nat" where
  "slice_bound n a = nat (if a < 0 then max 0 (a + n) else min a n)"

text \<open>
  Broadcasting one source row to width \<open>f\<close>: the row fits, or has one element that is
  repeated, or the assignment raises.
\<close>

definition broadcast_row :: "nat \<Rightarrow> real list \<Rightarrow> real list option" where
  "broadcast_row f r =
     (if length r = f then Some r
      else if length r = 1 then Some (replicate f (hd r))
      else None)"

fun broadcast_rows :: "nat \<Rightarrow> real list list \<Rightarrow> real list list option" where
  "broadcast_rows f [] = Some []"
| "broadcast_rows f (r # rs) =
     (case broadcast_row f r of
        None \<Rightarrow> None
      | Some r' \<Rightarrow> map_option ((#) r') (broadcast_rows f rs))"

text \<open>
  \<open>inputs[0, a:b, :] = mfccs\<close> where the rows of \<open>inputs\<close> have width \<open>f\<close>: the slice
  has \<open>m\<close> rows; \<open>mfccs\<close> must have \<open>m\<close> rows, or one row that is repeated, and its rows
  must broadcast to width \<open>f\<close>. (An array without rows is taken to have the right width.)
\<close>

definition assign_rows ::
  "nat \<Rightarrow> real list list \<Rightarrow> int \<Rightarrow> int \<Rightarrow> real list list \<Rightarrow> error + real list list" where
  "assign_rows f inp a b mfccs =
     (let n = int (length inp);
          start = slice_bound n a;
          stop = slice_bound n b;
          m = stop - start
      in case broadcast_rows f mfccs of
           None \<Rightarrow> Inl ValueError
         | Some rows \<Rightarrow>
             if length rows = m then Inr (take start inp @ rows @ drop (start + m) inp)
             else if length rows = 1 then
               Inr (take start inp @ replicate m (hd rows) @ drop (start + m) inp)
             else Inl ValueError)"

text \<open>
  The decoding of one probability (the block under \<open># Decode\<close> of \<open>update\<close>): the new
  state and \<open>triggered\<close>. \<open>-(8 * 2048) // self.chunk_size\<close> is the floor division of
  \<open>-16384\<close>, which raises when \<open>chunk_size\<close> is 0.
\<close>

definition decode :: "engine \<Rightarrow> real \<Rightarrow> error + engine \<times> bool" where
  "decode s prob =
     (let activated = (prob > 1 - sensitivity s)
      in if activated \<or> activation s < 0 then
           let s1 = s\<lparr>activation := activation s + 1\<rparr>;
               triggered = (activation s1 > trigger_level s1)
           in if triggered \<or> (activated \<and> activation s1 < 0) then
                if chunk_size s1 = 0 then Inl ZeroDivisionError
                else Inr (s1\<lparr>activation := (- (8 * 2048)) div chunk_size s1\<rparr>, triggered)
              else Inr (s1, triggered)
         else if activation s > 0 then Inr (s\<lparr>activation := activation s - 1\<rparr>, False)
         else Inr (s, False))"

text \<open>
  The first half of the body of the \<open>while\<close> loop of \<open>update\<close>, up to the test
  \<open>inputs_end_idx < self._inputs.shape[1]\<close>: the audio is decoded, the frames are
  extracted, the processed bytes leave the buffer, the window is rolled when the frames do
  not fit, and the frames are written at its end. The flag of the result is True when the
  window is full (the body goes on to the interpreter) and False at \<open>continue\<close>.
\<close>

definition insert_mfccs :: "extractor \<Rightarrow> engine \<Rightarrow> error + engine \<times> bool" where
  "insert_mfccs mfcc_spec s =
     (case buffer_to_audio (chunk_buffer s) of
        Inl e \<Rightarrow> Inl e
      | Inr audio \<Rightarrow>
          let p = params s;
              mfccs = mfcc_spec audio (sample_rate p) (window_samples p, hop_samples p)
                        (n_filt p) (n_fft p) (n_mfcc p);
              num_timesteps = int (length mfccs);
              s1 = s\<lparr>chunk_buffer := py_from (num_timesteps * hop_bytes s) (chunk_buffer s)\<rparr>;
              shape1 = int (length (inputs s1));
              roll = (inputs_idx s1 + num_timesteps > shape1);
              inputs_end_idx = (if roll then shape1 else inputs_idx s1 + num_timesteps);
              s2 = (if roll
                    then s1\<lparr>inputs := rotate (nat num_timesteps) (inputs s1),
                            inputs_idx := shape1 - num_timesteps\<rparr>
                    else s1)
          in case assign_rows (nat (n_mfcc p)) (inputs s2) (inputs_idx s2) inputs_end_idx mfccs of
               Inl e \<Rightarrow> Inl e
             | Inr inp \<Rightarrow>
                 Inr (s2\<lparr>inputs := inp, inputs_idx := inputs_idx s2 + num_timesteps\<rparr>,
                      \<not> inputs_end_idx < shape1))"

text \<open>
  The second half of the body, from \<open># raw_output\<close>: the interpreter gives the
  probability; one outside \<open>[0, 1]\<close> is dropped with \<open>continue\<close>; otherwise it is stored
  and decoded. The flag of the result is True when the body ends in \<open>break\<close>.
\<close>

definition score :: "scorer \<Rightarrow> engine \<Rightarrow> error + engine \<times> bool" where
  "score interpreter s =
     (let prob = interpreter (inputs s)
      in if prob < 0 \<or> prob > 1 then Inr (s, False)
         else
           (case decode (s\<lparr>probability := Some prob\<rparr>) prob of
              Inl e \<Rightarrow> Inl e
            | Inr (s', triggered) \<Rightarrow>
                if triggered then Inr (s'\<lparr>is_found := True\<rparr>, True)
                else Inr (s', False)))"

text \<open>
  One pass through the body of the loop. The flag of the result is True when the body
  ends in \<open>break\<close>; \<open>continue\<close> and the end of the body give False.
\<close>

definition iteration :: "extractor \<Rightarrow> scorer \<Rightarrow> engine \<Rightarrow> error + engine \<times> bool" where
  "iteration mfcc_spec interpreter s =
     (case insert_mfccs mfcc_spec s of
        Inl e \<Rightarrow> Inl e
      | Inr (s', full) \<Rightarrow>
          if full then score interpreter s' else Inr (s', False))"

text \<open>
  The \<open>while\<close> loop of \<open>update\<close>. Nothing bounds the number of passes when the extractor
  returns no frame, so the loop is a partial function: \<open>None\<close> is a loop that never ends.
\<close>

partial_function (option) process ::
  "extractor \<Rightarrow> scorer \<Rightarrow> engine \<Rightarrow> (error + engine) option" where
  "process mfcc_spec interpreter s =
     (if int (length (chunk_buffer s)) \<ge> window_bytes s then
        (case iteration mfcc_spec interpreter s of
           Inl e \<Rightarrow> Some (Inl e)
         | Inr (s', brk) \<Rightarrow>
             if brk then Some (Inr s') else process mfcc_spec interpreter s')
      else Some (Inr s))"

text \<open>\<open>update\<close>: the state after the call and the value returned, \<open>_is_found\<close>.\<close>

definition update ::
  "extractor \<Rightarrow> scorer \<Rightarrow> engine \<Rightarrow> byte list \<Rightarrow> (error + engine \<times> bool) option" where
  "update mfcc_spec interpreter s chunk =
     (case process mfcc_spec interpreter
             (s\<lparr>is_found := False,
                chunk_buffer := chunk_buffer s @ chunk,
                probability := None\<rparr>) of
        None \<Rightarrow> None
      | Some (Inl e) \<Rightarrow> Some (Inl e)
      | Some (Inr s') \<Rightarrow> Some (Inr (s', is_found s')))"

definition found_wake_word :: "engine \<Rightarrow> byte list \<Rightarrow> bool" where
  "found_wake_word s frame_data = is_found s"

definition reset :: "engine \<Rightarrow> error + engine" where
  "reset s =
     (case n_features (params s) of
        Inl e \<Rightarrow> Inl e
      | Inr n \<Rightarrow>
          (case zeros n (n_mfcc (params s)) of
             Inl e \<Rightarrow> Inl e
           | Inr z \<Rightarrow>
               Inr (s\<lparr>inputs := z, activation := 0, is_found := False,
                      inputs_idx := 0, chunk_buffer := []\<rparr>)))"

section \<open>Harnesses\<close>

text \<open>
  A sequence of probabilities fed to the activation state machine, one \<open>decode\<close> each:
  the last state and the value of \<open>triggered\<close> at every step. An exception ends the run.
\<close>

fun feed :: "engine \<Rightarrow> real list \<Rightarrow> error + engine \<times> bool list" where
  "feed s [] = Inr (s, [])"
| "feed s (p # ps) =
     (case decode s p of
        Inl e \<Rightarrow> Inl e
      | Inr (s', t) \<Rightarrow>
          (case feed s' ps of
             Inl e \<Rightarrow> Inl e
           | Inr (s'', ts) \<Rightarrow> Inr (s'', t # ts)))"

text \<open>
  A sequence of chunks given to \<open>update\<close>, one call each: what every call returns and
  the probability readable after it. An exception ends the run, a call that never returns
  makes the run \<open>None\<close>.
\<close>

fun update_all ::
  "extractor \<Rightarrow> scorer \<Rightarrow> engine \<Rightarrow> byte list list \<Rightarrow>
     (error + bool \<times> real option) list option" where
  "update_all mfcc_spec interpreter s [] = Some []"
| "update_all mfcc_spec interpreter s (chunk # chunks) =
     (case update mfcc_spec interpreter s chunk of
        None \<Rightarrow> None
      | Some (Inl e) \<Rightarrow> Some [Inl e]
      | Some (Inr (s', found)) \<Rightarrow>
          map_option ((#) (Inr (found, probability s')))
            (update_all mfcc_spec interpreter s' chunks))"

text \<open>
  Deterministic stand-ins for tests of the loop: an extractor that returns one frame of
  one feature per sample, a scorer that returns a constant, and an engine whose window is
  one frame of one feature, with one sample per window and per hop.
\<close>

definition stub_extractor :: extractor where
  "stub_extractor audio rate win filt fft coeffs = map (\<lambda>x. [x]) audio"

definition stub_scorer :: "real \<Rightarrow> scorer" where
  "stub_scorer c inp = c"

definition stub_engine :: engine where
  "stub_engine =
     \<lparr> sensitivity = 7 / 10, trigger_level = 0, chunk_size = 2048,
       params = ListenerParams_default\<lparr>n_mfcc := 1\<rparr>, inputs = [[0]], inputs_idx = 0,
       window_bytes = 2, hop_bytes = 2, chunk_buffer = [],
       activation = 0, is_found = False, probability = None \<rparr>"

text \<open>The value that a firing step gives to the activation counter.\<close>

definition cooldown :: "engine \<Rightarrow> int" where
  "cooldown s = (- (8 * 2048)) div chunk_size s"

text \<open>
  The bounds of the activation counter between two steps: the cooldown value below, the
  trigger level above.
\<close>

definition activation_bounded :: "engine \<Rightarrow> bool" where
  "activation_bounded s \<longleftrightarrow>
     \<lfloor>- 16384 / real_of_int (chunk_size s)\<rfloor> \<le> activation s \<and> activation s \<le> trigger_level s"

text \<open>
  Two engines with the same configuration: the attributes that only \<open>__init__\<close> and
  \<open>_load_model\<close> assign are equal.
\<close>

definition same_configuration :: "engine \<Rightarrow> engine \<Rightarrow> bool" where
  "same_configuration s t \<longleftrightarrow>
     sensitivity s = sensitivity t \<and> trigger_level s = trigger_level t \<and>
     chunk_size s = chunk_size t \<and> params s = params t \<and>
     window_bytes s = window_bytes t \<and> hop_bytes s = hop_bytes t"

section \<open>Words of the codec\<close>

lemma uint_ucast_byte: "uint (ucast (b :: byte) :: int16) = uint b"
  by (rule uint_up_ucast) (simp add: is_up)

lemma uint_byte_bound: "0 \<le> uint (b :: byte) \<and> uint b < 256"
  using uint_lt2p[of b] by simp

lemma le_i2_add: "le_i2 lo hi = push_bit 8 (ucast hi) + ucast lo"
  unfolding le_i2_def
  by (rule disjunctive_add[symmetric]) (auto simp: bit_simps dest: bit_imp_le_length)

lemma uint_le_i2: "uint (le_i2 lo hi) = uint lo + 256 * uint hi"
proof -
  have "uint (le_i2 lo hi) = (uint hi * 256 mod 65536 + uint lo) mod 65536"
    by (simp add: le_i2_add push_bit_eq_mult uint_word_ariths uint_ucast_byte)
  with uint_byte_bound[of lo] uint_byte_bound[of hi] show ?thesis by simp
qed

lemma tobytes_le_i2: "tobytes_i2 (le_i2 lo hi) = [lo, hi]"
  unfolding tobytes_i2_def le_i2_def
  apply simp
  apply (rule conjI)
  apply (rule bit_word_eqI; auto simp: bit_simps dest: bit_imp_le_length)
  apply (rule bit_word_eqI; auto simp: bit_simps dest: bit_imp_le_length)
  done

lemma sint_16: "sint (w :: int16) = (if uint w < 32768 then uint w else uint w - 65536)"
proof -
  have s: "sint w = (uint w + 32768) mod 65536 - 32768"
    by (simp add: sint_uint signed_take_bit_eq_take_bit_shift take_bit_eq_mod)
  have b: "0 \<le> uint w" "uint w < 65536" using uint_lt2p[of w] by simp_all
  show ?thesis
  proof (cases "uint w < 32768")
    case True
    with b have "(uint w + 32768) mod 65536 = uint w + 32768"
      by (intro mod_pos_pos_trivial) simp_all
    with s True show ?thesis by simp
  next
    case False
    have "(uint w + 32768) mod 65536 = (uint w + 32768 - 65536) mod 65536"
      by (rule minus_mod_self2[symmetric])
    also have "\<dots> = uint w + 32768 - 65536"
      using b False by (intro mod_pos_pos_trivial) simp_all
    finally show ?thesis using s False by simp
  qed
qed

lemma sint_of_int_16: "sint (word_of_int t :: int16) = (t + 32768) mod 65536 - 32768"
  by (simp add: int_word_sint)

lemma sint_16_bound: "- 32768 \<le> sint (w :: int16) \<and> sint w < 32768"
proof -
  have b: "0 \<le> uint w" "uint w < 65536" using uint_lt2p[of w] by simp_all
  show ?thesis
  proof (cases "uint w < 32768")
    case True
    then have "sint w = uint w" by (simp add: sint_16)
    with b True show ?thesis by (intro conjI) linarith+
  next
    case False
    then have "sint w = uint w - 65536" by (simp add: sint_16)
    with b False show ?thesis by (intro conjI) linarith+
  qed
qed

lemma length_frombuffer_i2: "length (frombuffer_i2 b) = length b div 2"
  by (induction b rule: frombuffer_i2.induct) simp_all

lemma nth_frombuffer_i2:
  "i < length b div 2 \<Longrightarrow> frombuffer_i2 b ! i = le_i2 (b ! (2 * i)) (b ! (2 * i + 1))"
proof (induction b arbitrary: i rule: frombuffer_i2.induct)
  case (1 lo hi bs)
  then show ?case by (cases i) simp_all
qed simp_all

lemma concat_tobytes_frombuffer:
  "even (length b) \<Longrightarrow> concat (map tobytes_i2 (frombuffer_i2 b)) = b"
  by (induction b rule: frombuffer_i2.induct) (simp_all add: tobytes_le_i2)

lemma py_int_of_int: "py_int (real_of_int k) = k"
  by (simp add: py_int_def)


lemma py_int_mono: "x \<le> y \<Longrightarrow> py_int x \<le> py_int y"
proof -
  assume xy: "x \<le> y"
  consider (pp) "0 \<le> x" | (np) "x < 0" "0 \<le> y" | (nn) "y < 0" using xy by linarith
  then show ?thesis
  proof cases
    case pp
    with xy show ?thesis by (simp add: py_int_def floor_mono)
  next
    case np
    then have "\<lceil>x\<rceil> \<le> 0" "0 \<le> \<lfloor>y\<rfloor>" by simp_all
    then have "\<lceil>x\<rceil> \<le> \<lfloor>y\<rfloor>" by (rule order_trans)
    with np show ?thesis by (simp add: py_int_def)
  next
    case nn
    with xy show ?thesis by (simp add: py_int_def ceiling_mono)
  qed
qed

lemma encode_sample_signed:
  "encode_sample (signed (w :: int16) / real_of_int MAX_WAV_VALUE) = Some w"
proof -
  have s: "(signed w :: real) = real_of_int (sint w)" by simp
  have e: "real_of_int (sint w) / real_of_int MAX_WAV_VALUE * real_of_int MAX_WAV_VALUE
             = real_of_int (sint w)"
    by (simp add: MAX_WAV_VALUE_def)
  have w: "word_of_int (sint w) = w" by simp
  have r: "- (2 ^ 31) \<le> sint w \<and> sint w < 2 ^ 31"
    using sint_16_bound[of w] by (intro conjI) simp_all
  show ?thesis
    unfolding encode_sample_def astype_i2_def s e py_int_of_int Let_def
    using r w by simp
qed

lemma audio_to_buffer_decoded:
  "audio_to_buffer (map (\<lambda>w. signed w / real_of_int MAX_WAV_VALUE) ws) =
     Some (concat (map tobytes_i2 ws))"
  by (induction ws) (simp_all add: encode_sample_signed)

lemma py_int_bounds:
  assumes "real_of_int a \<le> x" "x < real_of_int b" "a \<le> 0" "0 < b"
  shows "a \<le> py_int x \<and> py_int x < b"
proof (cases "0 \<le> x")
  case True
  with assms show ?thesis by (simp add: py_int_def floor_less_iff le_floor_iff)
next
  case False
  then have c: "\<lceil>x\<rceil> \<le> 0" by simp
  have "real_of_int a \<le> real_of_int \<lceil>x\<rceil>" using assms(1) le_of_int_ceiling[of x] by linarith
  then have "a \<le> \<lceil>x\<rceil>" by simp
  moreover from c assms(4) have "\<lceil>x\<rceil> < b" by linarith
  ultimately show ?thesis using False by (simp add: py_int_def)
qed

section \<open>The activation state machine\<close>

lemma decode_cfg:
  "decode s p = Inr (s', t) \<Longrightarrow>
     sensitivity s' = sensitivity s \<and> trigger_level s' = trigger_level s \<and> chunk_size s' = chunk_size s"
  by (auto simp: decode_def Let_def split: if_splits)

lemma decode_frame: "decode s p = Inr (s', t) \<Longrightarrow> s' = s\<lparr>activation := activation s'\<rparr>"
  by (auto simp: decode_def Let_def split: if_splits)

lemma cooldown_neg: "1 \<le> chunk_size s \<Longrightarrow> cooldown s < 0"
  by (simp add: cooldown_def pos_imp_zdiv_neg_iff)

lemma cooldown_le: "1 \<le> chunk_size s \<Longrightarrow> cooldown s \<le> - (16384 div chunk_size s)"
  using zdiv_zminus1_eq_if[of "chunk_size s" 16384] by (simp add: cooldown_def split: if_splits)

lemma decode_total:
  "chunk_size s \<noteq> 0 \<Longrightarrow> \<exists>s' t. decode s p = Inr (s', t)"
  by (auto simp: decode_def Let_def)

lemma decode_quiet:
  assumes "chunk_size s \<noteq> 0" "activation s + 1 \<le> trigger_level s"
  shows "\<exists>s'. decode s p = Inr (s', False) \<and>
     (activation s' = activation s + 1 \<or> activation s' = cooldown s \<or> activation s' = activation s - 1 \<or> activation s' = activation s)"
  using assms by (auto simp: decode_def Let_def cooldown_def)

lemma decode_rise:
  assumes "0 \<le> activation s" "activation s + 1 \<le> trigger_level s" "p > 1 - sensitivity s"
  shows "decode s p = Inr (s\<lparr>activation := activation s + 1\<rparr>, False)"
  using assms by (auto simp: decode_def Let_def)

lemma decode_fire:
  assumes "chunk_size s \<noteq> 0" "activation s + 1 > trigger_level s" "p > 1 - sensitivity s"
  shows "decode s p = Inr (s\<lparr>activation := cooldown s\<rparr>, True)"
  using assms by (auto simp: decode_def Let_def cooldown_def)

lemma decode_fired:
  "decode s p = Inr (s', True) \<Longrightarrow> activation s' = cooldown s \<and> trigger_level s < activation s + 1"
  by (auto simp: decode_def Let_def cooldown_def split: if_splits)

lemma feed_total:
  "chunk_size s \<noteq> 0 \<Longrightarrow> \<exists>s' ts. feed s ps = Inr (s', ts) \<and> length ts = length ps"
proof (induction ps arbitrary: s)
  case Nil
  then show ?case by simp
next
  case (Cons p ps)
  from decode_total[OF Cons.prems] obtain s1 t where d: "decode s p = Inr (s1, t)" by blast
  with decode_cfg[OF d] Cons.prems have "chunk_size s1 \<noteq> 0" by simp
  from Cons.IH[OF this] obtain s2 ts where "feed s1 ps = Inr (s2, ts)" "length ts = length ps"
    by blast
  with d show ?case by simp
qed

lemma feed_append:
  "feed s (xs @ ys) =
     (case feed s xs of
        Inl e \<Rightarrow> Inl e
      | Inr (s', ts) \<Rightarrow>
          (case feed s' ys of Inl e \<Rightarrow> Inl e | Inr (s'', ts') \<Rightarrow> Inr (s'', ts @ ts')))"
  by (induction xs arbitrary: s) (auto split: sum.splits prod.splits)

lemma feed_rise:
  assumes "0 \<le> activation s" "activation s + int (length ps) \<le> trigger_level s"
    "\<forall>p\<in>set ps. p > 1 - sensitivity s"
  shows "feed s ps = Inr (s\<lparr>activation := activation s + int (length ps)\<rparr>, replicate (length ps) False)"
  using assms
proof (induction ps arbitrary: s)
  case Nil
  then show ?case by simp
next
  case (Cons p ps)
  let ?s1 = "s\<lparr>activation := activation s + 1\<rparr>"
  have d: "decode s p = Inr (?s1, False)"
    using Cons.prems by (intro decode_rise) auto
  have "feed ?s1 ps = Inr (?s1\<lparr>activation := activation ?s1 + int (length ps)\<rparr>, replicate (length ps) False)"
    using Cons.prems by (intro Cons.IH) auto
  with d show ?case by (simp add: add.assoc add.commute)
qed

lemma feed_quiet:
  assumes "chunk_size s \<noteq> 0" "activation s + int (length ps) \<le> trigger_level s"
    "cooldown s + int (length ps) \<le> trigger_level s"
  shows "\<exists>s'. feed s ps = Inr (s', replicate (length ps) False)"
  using assms
proof (induction ps arbitrary: s)
  case Nil
  then show ?case by simp
next
  case (Cons p ps)
  from decode_quiet[of s p] Cons.prems obtain s1 where d: "decode s p = Inr (s1, False)"
    and a: "activation s1 = activation s + 1 \<or> activation s1 = cooldown s \<or> activation s1 = activation s - 1 \<or> activation s1 = activation s"
    by auto
  have c: "chunk_size s1 = chunk_size s" "trigger_level s1 = trigger_level s"
    using decode_cfg[OF d] by simp_all
  then have cd: "cooldown s1 = cooldown s" by (simp add: cooldown_def)
  have "\<exists>s'. feed s1 ps = Inr (s', replicate (length ps) False)"
    using Cons.prems a c cd by (intro Cons.IH) auto
  with d show ?case by auto
qed

section \<open>The loop of update\<close>

lemma same_configuration_refl: "same_configuration s s"
  by (simp add: same_configuration_def)

lemma same_configuration_trans:
  "same_configuration s t \<Longrightarrow> same_configuration t u \<Longrightarrow> same_configuration s u"
  by (simp add: same_configuration_def)

lemma same_configuration_cooldown: "same_configuration s t \<Longrightarrow> cooldown s = cooldown t"
  by (simp add: same_configuration_def cooldown_def)

lemma decode_same:
  "decode s p = Inr (s', t) \<Longrightarrow>
     same_configuration s' s \<and> is_found s' = is_found s \<and> probability s' = probability s"
  by (auto simp: decode_def Let_def same_configuration_def split: if_splits)

lemma insert_mfccs_same:
  assumes "insert_mfccs mf s = Inr (s', full)"
  shows "same_configuration s' s \<and> activation s' = activation s \<and>
         is_found s' = is_found s \<and> probability s' = probability s"
  using assms
  by (auto simp: insert_mfccs_def Let_def same_configuration_def split: sum.splits if_splits)

lemma score_cases:
  assumes "score it s = Inr (s', brk)"
  shows "(s' = s \<and> \<not> brk \<and> (it (inputs s) < 0 \<or> it (inputs s) > 1)) \<or>
         (0 \<le> it (inputs s) \<and> it (inputs s) \<le> 1 \<and>
          (\<exists>s1. decode (s\<lparr>probability := Some (it (inputs s))\<rparr>) (it (inputs s)) = Inr (s1, brk) \<and>
                s' = (if brk then s1\<lparr>is_found := True\<rparr> else s1)))"
  using assms
  by (auto simp: score_def Let_def split: sum.splits if_splits prod.splits)

lemma score_same:
  assumes "score it s = Inr (s', brk)"
  shows "same_configuration s' s \<and> (brk \<longrightarrow> is_found s' \<and> activation s' = cooldown s) \<and>
         (\<not> brk \<longrightarrow> is_found s' = is_found s)"
proof -
  let ?s = "s\<lparr>probability := Some (it (inputs s))\<rparr>"
  from score_cases[OF assms] consider
    (skip) "s' = s" "\<not> brk"
    | (dec) s1 where "decode ?s (it (inputs s)) = Inr (s1, brk)"
        "s' = (if brk then s1\<lparr>is_found := True\<rparr> else s1)"
    by blast
  then show ?thesis
  proof cases
    case skip
    then show ?thesis by (simp add: same_configuration_refl)
  next
    case dec
    from decode_same[OF dec(1)] have c: "same_configuration s1 s" "is_found s1 = is_found s"
      by (simp_all add: same_configuration_def)
    have "brk \<Longrightarrow> activation s1 = cooldown s"
      using decode_fired[of ?s "it (inputs s)" s1] dec(1) by (simp add: cooldown_def)
    with c dec(2) show ?thesis by (auto simp: same_configuration_def)
  qed
qed

lemma iteration_same:
  assumes "iteration mf it s = Inr (s', brk)"
  shows "same_configuration s' s \<and> (brk \<longrightarrow> is_found s' \<and> activation s' = cooldown s) \<and>
         (\<not> brk \<longrightarrow> is_found s' = is_found s)"
proof -
  from assms obtain s1 full where i: "insert_mfccs mf s = Inr (s1, full)"
    and r: "if full then score it s1 = Inr (s', brk) else s' = s1 \<and> \<not> brk"
    by (auto simp: iteration_def split: sum.splits prod.splits if_splits)
  note a = insert_mfccs_same[OF i]
  show ?thesis
  proof (cases full)
    case True
    with r have "score it s1 = Inr (s', brk)" by simp
    from score_same[OF this] a show ?thesis
      by (auto simp: same_configuration_def cooldown_def)
  next
    case False
    with r a show ?thesis by auto
  qed
qed

lemma process_ends:
  assumes "process mf it s = Some (Inr s')" and "Q s"
    and step: "\<And>s s'. Q s \<Longrightarrow> iteration mf it s = Inr (s', False) \<Longrightarrow> Q s'"
  shows "(Q s' \<and> \<not> window_bytes s' \<le> int (length (chunk_buffer s'))) \<or>
         (\<exists>s0. Q s0 \<and> iteration mf it s0 = Inr (s', True))"
proof -
  let ?R = "\<lambda>m i t. (Q t \<and> \<not> window_bytes t \<le> int (length (chunk_buffer t))) \<or>
                  (\<exists>s0. Q s0 \<and> iteration m i s0 = Inr (t, True))"
  let ?P = "\<lambda>m i u r. (\<forall>a b. Q a \<longrightarrow> iteration m i a = Inr (b, False) \<longrightarrow> Q b) \<longrightarrow> Q u \<longrightarrow>
                  (\<forall>t. r = Inr t \<longrightarrow> ?R m i t)"
  have "?P mf it s r" if "process mf it s = Some r" for r
    using that
  proof (induction mf it s r rule: process.raw_induct[rotated 1, consumes 1])
    case (1 f m i u r)
    note IH = "1.IH" and h = "1.hyps"
    show ?case
    proof (intro impI allI)
      fix t
      assume st: "\<forall>a b. Q a \<longrightarrow> iteration m i a = Inr (b, False) \<longrightarrow> Q b"
        and q: "Q u" and r: "r = Inr t"
      show "?R m i t"
      proof (cases "window_bytes u \<le> int (length (chunk_buffer u))")
        case False
        with h r have "t = u" by simp
        with False q show ?thesis by simp
      next
        case True
        with h r obtain s1 brk where it: "iteration m i u = Inr (s1, brk)"
          and c: "if brk then t = s1 else f m i s1 = Some r"
          by (auto split: sum.splits prod.splits if_splits)
        show ?thesis
        proof (cases brk)
          case True
          with c it q show ?thesis by auto
        next
          case False
          with c have p: "f m i s1 = Some r" by simp
          from False it q st have "Q s1" by auto
          with IH[OF p] st r show ?thesis by blast
        qed
      qed
    qed
  qed
  from this[OF assms(1)] assms(2) step show ?thesis by blast
qed

lemma cooldown_floor: "\<lfloor>- 16384 / real_of_int (chunk_size s)\<rfloor> = cooldown s"
  using floor_divide_of_int_eq[of "- 16384" "chunk_size s"] by (simp add: cooldown_def)

lemma activation_bounded_iff:
  "activation_bounded s \<longleftrightarrow> cooldown s \<le> activation s \<and> activation s \<le> trigger_level s"
  by (simp only: activation_bounded_def cooldown_floor)

lemma same_configuration_bounded:
  "same_configuration s t \<Longrightarrow> activation s = activation t \<Longrightarrow>
     activation_bounded s = activation_bounded t"
  by (simp add: activation_bounded_def same_configuration_def)

lemma decode_bounded:
  assumes "0 \<le> trigger_level s" "1 \<le> chunk_size s" "activation_bounded s"
    and "decode s p = Inr (s', t)"
  shows "activation_bounded s'"
  using assms cooldown_neg[of s]
  by (auto simp: activation_bounded_iff decode_def Let_def cooldown_def split: if_splits)

lemma score_bounded:
  assumes "0 \<le> trigger_level s" "1 \<le> chunk_size s" "activation_bounded s"
    and "score it s = Inr (s', b)"
  shows "activation_bounded s'"
proof -
  let ?s = "s\<lparr>probability := Some (it (inputs s))\<rparr>"
  from score_cases[OF assms(4)] consider
    (skip) "s' = s"
    | (dec) s1 where "decode ?s (it (inputs s)) = Inr (s1, b)"
        "s' = (if b then s1\<lparr>is_found := True\<rparr> else s1)"
    by blast
  then show ?thesis
  proof cases
    case skip
    with assms(3) show ?thesis by simp
  next
    case dec
    have "activation_bounded ?s" using assms(3) by (simp add: activation_bounded_def)
    with decode_bounded[of ?s "it (inputs s)" s1 b] assms(1,2) dec(1)
    have "activation_bounded s1" by simp
    with dec(2) show ?thesis by (simp add: activation_bounded_def)
  qed
qed

lemma iteration_bounded:
  assumes "0 \<le> trigger_level s" "1 \<le> chunk_size s" "activation_bounded s"
    and "iteration mf it s = Inr (s', b)"
  shows "activation_bounded s'"
proof -
  from assms(4) obtain s1 full where i: "insert_mfccs mf s = Inr (s1, full)"
    and r: "if full then score it s1 = Inr (s', b) else s' = s1"
    by (auto simp: iteration_def split: sum.splits prod.splits if_splits)
  from insert_mfccs_same[OF i] assms(1-3)
  have s1: "0 \<le> trigger_level s1" "1 \<le> chunk_size s1" "activation_bounded s1"
    by (simp_all add: same_configuration_def activation_bounded_def)
  show ?thesis
  proof (cases full)
    case True
    with r score_bounded[OF s1] show ?thesis by simp
  next
    case False
    with r s1 show ?thesis by simp
  qed
qed

lemma process_same:
  assumes "process mf it s = Some (Inr s')"
  shows "same_configuration s' s"
proof -
  let ?Q = "\<lambda>t. same_configuration t s"
  have "(?Q s' \<and> \<not> window_bytes s' \<le> int (length (chunk_buffer s'))) \<or>
        (\<exists>s0. ?Q s0 \<and> iteration mf it s0 = Inr (s', True))"
    using assms
  proof (rule process_ends)
    show "?Q s" by (rule same_configuration_refl)
  next
    fix t t' assume "?Q t" "iteration mf it t = Inr (t', False)"
    with iteration_same[of mf it t t' False] show "?Q t'"
      by (blast intro: same_configuration_trans)
  qed
  then show ?thesis
    using iteration_same same_configuration_trans by blast
qed

lemma process_found:
  assumes "process mf it s = Some (Inr s')" and "\<not> is_found s" and "is_found s'"
  shows "activation s' = cooldown s"
proof -
  let ?Q = "\<lambda>t. same_configuration t s \<and> \<not> is_found t"
  have "(?Q s' \<and> \<not> window_bytes s' \<le> int (length (chunk_buffer s'))) \<or>
        (\<exists>s0. ?Q s0 \<and> iteration mf it s0 = Inr (s', True))"
    using assms(1)
  proof (rule process_ends)
    show "?Q s" using assms(2) by (simp add: same_configuration_refl)
  next
    fix t t' assume "?Q t" "iteration mf it t = Inr (t', False)"
    with iteration_same[of mf it t t' False] show "?Q t'"
      by (auto intro: same_configuration_trans)
  qed
  with assms(3) obtain s0 where "same_configuration s0 s" "iteration mf it s0 = Inr (s', True)"
    by blast
  with iteration_same[of mf it s0 s' True] same_configuration_cooldown[of s0 s]
  show ?thesis by simp
qed

lemma process_bounded:
  assumes "process mf it s = Some (Inr s')"
    and "0 \<le> trigger_level s" "1 \<le> chunk_size s" "activation_bounded s"
  shows "activation_bounded s'"
proof -
  let ?Q = "\<lambda>t. 0 \<le> trigger_level t \<and> 1 \<le> chunk_size t \<and> activation_bounded t"
  have st: "?Q t'" if "?Q t" "iteration mf it t = Inr (t', b)" for t t' b
    using that iteration_bounded[of t mf it t' b] iteration_same[of mf it t t' b]
    by (simp add: same_configuration_def)
  have "(?Q s' \<and> \<not> window_bytes s' \<le> int (length (chunk_buffer s'))) \<or>
        (\<exists>s0. ?Q s0 \<and> iteration mf it s0 = Inr (s', True))"
    using assms(1)
  proof (rule process_ends)
    show "?Q s" using assms by simp
  next
    fix t t' assume "?Q t" "iteration mf it t = Inr (t', False)"
    then show "?Q t'" by (rule st)
  qed
  with st show ?thesis by blast
qed

lemma n_features_default: "n_features ListenerParams_default = Inr 29"
  by (simp add: n_features_def buffer_samples_def hop_samples_def window_samples_def
      ListenerParams_default_def py_int_def)

lemma init_eq:
  "init sens lvl csz =
     Inr \<lparr> sensitivity = sens, trigger_level = lvl, chunk_size = csz,
           params = ListenerParams_default, inputs = replicate 29 (replicate 13 0),
           inputs_idx = 0, window_bytes = 3200, hop_bytes = 1600, chunk_buffer = [],
           activation = 0, is_found = False, probability = None \<rparr>"
  by (simp add: init_def load_model_def n_features_default zeros_def Let_def)
     (simp add: ListenerParams_default_def hop_samples_def window_samples_def py_int_def)

lemma reset_bounded:
  assumes "0 \<le> trigger_level s" "1 \<le> chunk_size s" "reset s = Inr s'"
  shows "activation_bounded s'"
proof -
  from assms(3) have "activation s' = 0" "chunk_size s' = chunk_size s"
    "trigger_level s' = trigger_level s"
    by (auto simp: reset_def split: sum.splits)
  with assms(1,2) cooldown_neg[of s] show ?thesis
    by (simp add: activation_bounded_iff cooldown_def)
qed

lemma score_total:
  "chunk_size s \<noteq> 0 \<Longrightarrow> \<exists>s' b. score it s = Inr (s', b)"
  using decode_total[of "s\<lparr>probability := Some (it (inputs s))\<rparr>" "it (inputs s)"]
  by (auto simp: score_def Let_def)

lemma update_ignores_probability:
  "update mf it (s\<lparr>probability := p\<rparr>) chunk = update mf it s chunk"
  by (simp add: update_def)

lemma update_all_ignores_probability:
  "update_all mf it (s\<lparr>probability := p\<rparr>) chunks = update_all mf it s chunks"
  by (cases chunks) (simp_all add: update_ignores_probability)

lemma update_same:
  assumes "update mf it s chunk = Some (Inr (s', f))"
  shows "same_configuration s' s"
proof -
  let ?s0 = "s\<lparr>is_found := False, chunk_buffer := chunk_buffer s @ chunk, probability := None\<rparr>"
  from assms have p: "process mf it ?s0 = Some (Inr s')"
    by (auto simp: update_def split: option.splits sum.splits)
  from process_same[OF p] show ?thesis by (simp add: same_configuration_def)
qed

lemma reset_same:
  "reset s = Inr s' \<Longrightarrow> same_configuration s' s"
  by (auto simp: reset_def same_configuration_def split: sum.splits)

text \<open>
  The loop ends when the extractor returns at least one frame for every input, as
  \<open>mfcc_spec\<close> does on a full window, and the hop and the window have at least one byte:
  every pass that does not leave the loop shortens the chunk buffer.
\<close>

lemma score_chunk_buffer:
  "score it s = Inr (s', b) \<Longrightarrow> chunk_buffer s' = chunk_buffer s"
  by (auto simp: score_def Let_def decode_def split: if_splits sum.splits prod.splits)

lemma insert_mfccs_chunk_buffer:
  assumes "insert_mfccs mf s = Inr (s', full)"
  shows "\<exists>audio. buffer_to_audio (chunk_buffer s) = Inr audio \<and>
           chunk_buffer s' =
             py_from (int (length (mf audio (sample_rate (params s))
                 (window_samples (params s), hop_samples (params s))
                 (n_filt (params s)) (n_fft (params s)) (n_mfcc (params s)))) * hop_bytes s)
               (chunk_buffer s)"
  using assms
  by (auto simp: insert_mfccs_def Let_def split: sum.splits if_splits)

lemma iteration_shortens:
  assumes it: "iteration mf it s = Inr (s', b)"
    and frames: "\<And>audio r w f n c. mf audio r w f n c \<noteq> []"
    and hop: "0 < hop_bytes s" and win: "0 < window_bytes s"
    and full: "window_bytes s \<le> int (length (chunk_buffer s))"
  shows "length (chunk_buffer s') < length (chunk_buffer s)"
proof -
  from it obtain s1 fl where i: "insert_mfccs mf s = Inr (s1, fl)"
    and r: "if fl then score it s1 = Inr (s', b) else s' = s1"
    by (auto simp: iteration_def split: sum.splits prod.splits if_splits)
  from insert_mfccs_chunk_buffer[OF i] obtain k where k: "0 < k"
    and c: "chunk_buffer s1 = py_from (int k * hop_bytes s) (chunk_buffer s)"
    using frames by (metis length_greater_0_conv)
  from k hop have "0 < int k * hop_bytes s" by simp
  moreover from win full have "chunk_buffer s \<noteq> []" by auto
  ultimately have "length (chunk_buffer s1) < length (chunk_buffer s)"
    by (simp add: c py_from_def)
  with r score_chunk_buffer[of it s1 s' b] show ?thesis by (auto split: if_splits)
qed

lemma process_returns:
  assumes frames: "\<And>audio r w f n c. mf audio r w f n c \<noteq> []"
    and hop: "0 < hop_bytes s" and win: "0 < window_bytes s"
  shows "\<exists>r. process mf it s = Some r"
  using hop win
proof (induction "length (chunk_buffer s)" arbitrary: s rule: less_induct)
  case less
  show ?case
  proof (cases "window_bytes s \<le> int (length (chunk_buffer s))")
    case False
    then show ?thesis by (subst process.simps) simp
  next
    case True
    show ?thesis
    proof (cases "iteration mf it s")
      case (Inl e)
      with True show ?thesis by (subst process.simps) simp
    next
      case (Inr p)
      obtain s' b where p: "p = (s', b)" by (cases p)
      show ?thesis
      proof (cases b)
        case True
        with Inr p \<open>window_bytes s \<le> int (length (chunk_buffer s))\<close> show ?thesis
          by (subst process.simps) simp
      next
        case False
        from Inr p have i: "iteration mf it s = Inr (s', b)" by simp
        from iteration_shortens[OF i frames less.prems True]
        have l: "length (chunk_buffer s') < length (chunk_buffer s)" .
        from iteration_same[OF i] less.prems
        have "0 < hop_bytes s'" "0 < window_bytes s'" by (simp_all add: same_configuration_def)
        from less.hyps[OF l this] obtain r where "process mf it s' = Some r" by blast
        with i False True show ?thesis by (subst process.simps) simp
      qed
    qed
  qed
qed

lemma update_returns:
  assumes "\<And>audio r w f n c. mf audio r w f n c \<noteq> []"
    and "0 < hop_bytes s" and "0 < window_bytes s"
  shows "\<exists>r. update mf it s chunk = Some r"
proof -
  let ?s0 = "s\<lparr>is_found := False, chunk_buffer := chunk_buffer s @ chunk, probability := None\<rparr>"
  have "\<exists>r. process mf it ?s0 = Some r"
    using assms by (intro process_returns) simp_all
  then show ?thesis by (auto simp: update_def split: sum.splits)
qed

section \<open>Claims about the activation state machine\<close>

text \<open>
  C1. Starting from activation 0, with a trigger level of at least 0, a run of
  probabilities that are all above \<open>1 - sensitivity\<close> sets \<open>triggered\<close> at the
  step number \<open>trigger_level + 1\<close> (index \<open>trigger_level\<close>, counting from 0) and at no
  earlier step. The division of the cooldown needs a chunk size other than 0.
\<close>

theorem activation_fires_on_level_plus_one:
  assumes lvl: "0 \<le> trigger_level s" and cs: "chunk_size s \<noteq> 0"
    and a0: "activation s = 0"
    and hi: "\<forall>p\<in>set ps. p > 1 - sensitivity s"
  shows "\<exists>s' ts. feed s ps = Inr (s', ts) \<and> length ts = length ps \<and>
           (\<forall>i<length ps. i \<le> nat (trigger_level s) \<longrightarrow> (ts ! i \<longleftrightarrow> i = nat (trigger_level s)))"
proof (cases "length ps \<le> nat (trigger_level s)")
  case True
  have "feed s ps = Inr (s\<lparr>activation := activation s + int (length ps)\<rparr>, replicate (length ps) False)"
    using True a0 hi lvl by (intro feed_rise) auto
  with True show ?thesis by auto
next
  case False
  define n where "n = nat (trigger_level s)"
  define xs where "xs = take n ps"
  define s1 where "s1 = s\<lparr>activation := activation s + int (length xs)\<rparr>"
  from False have n: "n < length ps" by (simp add: n_def)
  then have lx: "length xs = n" by (simp add: xs_def)
  from n obtain p ys where ps: "ps = xs @ p # ys"
    unfolding xs_def by (metis id_take_nth_drop)
  have r: "feed s xs = Inr (s1, replicate n False)"
    unfolding s1_def using a0 hi lvl lx ps feed_rise[of s xs] by (auto simp: n_def)
  have a1: "activation s1 = trigger_level s" "chunk_size s1 = chunk_size s"
    "trigger_level s1 = trigger_level s" "sensitivity s1 = sensitivity s"
    using a0 lx lvl by (simp_all add: s1_def n_def)
  have d: "decode s1 p = Inr (s1\<lparr>activation := cooldown s1\<rparr>, True)"
    using a1 cs hi ps by (intro decode_fire) auto
  obtain s2 ts where t: "feed (s1\<lparr>activation := cooldown s1\<rparr>) ys = Inr (s2, ts)"
    "length ts = length ys"
    using feed_total[of "s1\<lparr>activation := cooldown s1\<rparr>" ys] a1 cs by auto
  have f: "feed s ps = Inr (s2, replicate n False @ True # ts)"
    by (simp add: ps feed_append r d t)
  have "\<forall>i<length ps. i \<le> n \<longrightarrow> ((replicate n False @ True # ts) ! i \<longleftrightarrow> i = n)"
    by (auto simp: nth_append)
  with f t lx ps show ?thesis by (auto simp: n_def)
qed

theorem activation_fires_on_level_plus_one_witness:
  "0 \<le> trigger_level (stub_engine\<lparr>trigger_level := 1\<rparr>) \<and>
   chunk_size (stub_engine\<lparr>trigger_level := 1\<rparr>) \<noteq> 0 \<and>
   activation (stub_engine\<lparr>trigger_level := 1\<rparr>) = 0 \<and>
   19 / 20 > 1 - sensitivity (stub_engine\<lparr>trigger_level := 1\<rparr>) \<and>
   (\<exists>s' ts. feed (stub_engine\<lparr>trigger_level := 1\<rparr>) [19 / 20, 19 / 20, 19 / 20] = Inr (s', ts) \<and>
            length ts = 3 \<and> \<not> ts ! 0 \<and> ts ! 1)"
proof -
  let ?s = "stub_engine\<lparr>trigger_level := 1\<rparr>"
  let ?ps = "[19 / 20, 19 / 20, 19 / 20 :: real]"
  have lvl: "0 \<le> trigger_level ?s" and cs: "chunk_size ?s \<noteq> 0" and a0: "activation ?s = 0"
    and hi: "\<forall>p\<in>set ?ps. p > 1 - sensitivity ?s"
    by (simp_all add: stub_engine_def)
  from activation_fires_on_level_plus_one[OF lvl cs a0 hi]
  obtain s' ts where f: "feed ?s ?ps = Inr (s', ts)" "length ts = length ?ps"
    and t: "\<forall>i<length ?ps. i \<le> nat (trigger_level ?s) \<longrightarrow> (ts ! i \<longleftrightarrow> i = nat (trigger_level ?s))"
    by blast
  from t have "\<not> ts ! 0" by (drule_tac x = 0 in spec) (simp add: stub_engine_def)
  moreover from t have "ts ! 1" by (drule_tac x = 1 in spec) (simp add: stub_engine_def)
  ultimately show ?thesis using f lvl cs a0 hi by auto
qed

text \<open>
  C2, as the text has it, fails: with a chunk size of 1000 a firing step leaves the
  counter at \<open>-17\<close>, the floor of \<open>-16384 / 1000\<close>, and not at \<open>-16\<close>, the negated floor
  of \<open>16384 / 1000\<close>.
\<close>

theorem cooldown_value_counterexample:
  "map_sum id (\<lambda>(s', t). (activation s', t))
     (decode \<lparr> sensitivity = 7 / 10, trigger_level = 0, chunk_size = 1000,
               params = ListenerParams_default, inputs = [], inputs_idx = 0,
               window_bytes = 3200, hop_bytes = 1600, chunk_buffer = [],
               activation = 0, is_found = False, probability = None \<rparr> (19 / 20))
     = Inr (- 17, True) \<and> (- 17 :: int) \<noteq> - \<lfloor>8 * 2048 / (1000 :: real)\<rfloor>"
  by (simp add: decode_def)

text \<open>
  C2, amended. For a positive chunk size, a step that fires, or that sees an activated
  frame while the incremented counter is negative, sets the counter to the floor of
  \<open>-(8 * 2048) / chunk_size\<close>, that is minus the ceiling of \<open>8 * 2048 / chunk_size\<close>;
  this is minus the floor of \<open>8 * 2048 / chunk_size\<close> when the chunk size divides
  \<open>8 * 2048\<close>.
\<close>

theorem cooldown_value:
  assumes "0 < chunk_size s"
    and "prob > 1 - sensitivity s \<or> activation s < 0"
    and "activation s + 1 > trigger_level s \<or> (prob > 1 - sensitivity s \<and> activation s + 1 < 0)"
  shows "\<exists>s'. decode s prob = Inr (s', activation s + 1 > trigger_level s) \<and>
           activation s' = \<lfloor>- (8 * 2048) / real_of_int (chunk_size s)\<rfloor> \<and>
           activation s' = - \<lceil>8 * 2048 / real_of_int (chunk_size s)\<rceil> \<and>
           (chunk_size s dvd 8 * 2048 \<longrightarrow>
              activation s' = - \<lfloor>8 * 2048 / real_of_int (chunk_size s)\<rfloor>)"
proof -
  let ?c = "chunk_size s"
  have d: "decode s prob = Inr (s\<lparr>activation := (- (8 * 2048)) div ?c\<rparr>, activation s + 1 > trigger_level s)"
    using assms by (auto simp: decode_def Let_def)
  have f: "\<lfloor>- (8 * 2048) / real_of_int ?c\<rfloor> = (- (8 * 2048)) div ?c"
    using floor_divide_of_int_eq[of "- 16384" ?c] by simp
  have g: "\<lceil>8 * 2048 / real_of_int ?c\<rceil> = - ((- (8 * 2048)) div ?c)"
    using f by (simp add: ceiling_def)
  have h: "?c dvd 8 * 2048 \<Longrightarrow> \<lfloor>8 * 2048 / real_of_int ?c\<rfloor> = - ((- (8 * 2048)) div ?c)"
    using floor_divide_of_int_eq[of "16384" ?c] zdiv_zminus1_eq_if[of ?c 16384] assms(1)
    by (auto simp: dvd_eq_mod_eq_0)
  show ?thesis using d f g h by auto
qed

theorem cooldown_value_witness:
  "0 < chunk_size (stub_engine\<lparr>chunk_size := 1000\<rparr>) \<and>
   19 / 20 > 1 - sensitivity (stub_engine\<lparr>chunk_size := 1000\<rparr>) \<and>
   activation (stub_engine\<lparr>chunk_size := 1000\<rparr>) + 1
     > trigger_level (stub_engine\<lparr>chunk_size := 1000\<rparr>) \<and>
   (\<exists>s'. decode (stub_engine\<lparr>chunk_size := 1000\<rparr>) (19 / 20) = Inr (s', True) \<and>
         activation s' = - 17)"
proof -
  let ?s = "stub_engine\<lparr>chunk_size := 1000\<rparr>"
  have cs: "0 < chunk_size ?s"
    and act: "19 / 20 > 1 - sensitivity ?s \<or> activation ?s < 0"
    and fire: "activation ?s + 1 > trigger_level ?s \<or>
               (19 / 20 > 1 - sensitivity ?s \<and> activation ?s + 1 < 0)"
    by (simp_all add: stub_engine_def)
  from cooldown_value[OF cs act fire]
  obtain s' where "decode ?s (19 / 20) = Inr (s', activation ?s + 1 > trigger_level ?s)"
    "activation s' = \<lfloor>- (8 * 2048) / real_of_int (chunk_size ?s)\<rfloor>"
    by blast
  then have "decode ?s (19 / 20) = Inr (s', True) \<and> activation s' = - 17"
    by (simp add: stub_engine_def)
  then show ?thesis by (simp add: stub_engine_def)
qed

text \<open>
  C3. With a chunk size of at least 1 and a trigger level of at least 0: after a call of
  \<open>update\<close> that returns True the activation counter is negative, and whatever the next
  probabilities are (all above \<open>1 - sensitivity\<close> included), none of the next
  \<open>floor(16384 / chunk_size)\<close> decoded frames fires. The same holds after any single
  decoding step that fires, and a step fires only when the incremented counter is above
  the trigger level.
\<close>

theorem cooldown_suppression:
  assumes cs: "1 \<le> chunk_size s" and lvl: "0 \<le> trigger_level s"
  shows "(update mf it s chunk = Some (Inr (s', True)) \<longrightarrow>
            activation s' < 0 \<and>
            (\<forall>ps. int (length ps) \<le> 16384 div chunk_size s \<longrightarrow>
               (\<exists>s''. feed s' ps = Inr (s'', replicate (length ps) False)))) \<and>
         (decode s p = Inr (s1, True) \<longrightarrow>
            trigger_level s < activation s + 1 \<and> activation s1 < 0 \<and>
            (\<forall>ps. int (length ps) \<le> 16384 div chunk_size s \<longrightarrow>
               (\<exists>s''. feed s1 ps = Inr (s'', replicate (length ps) False))))"
proof -
  have quiet: "\<exists>s''. feed t ps = Inr (s'', replicate (length ps) False)"
    if t: "same_configuration t s" "activation t = cooldown s"
      and n: "int (length ps) \<le> 16384 div chunk_size s" for t ps
  proof (rule feed_quiet)
    have c: "cooldown t = cooldown s" "chunk_size t = chunk_size s"
      "trigger_level t = trigger_level s"
      using t(1) by (simp_all add: same_configuration_def cooldown_def)
    show "chunk_size t \<noteq> 0" using c cs by simp
    have "cooldown s + int (length ps) \<le> 0" using cooldown_le[OF cs] n by simp
    with lvl c t(2) show "activation t + int (length ps) \<le> trigger_level t"
      "cooldown t + int (length ps) \<le> trigger_level t" by simp_all
  qed
  have neg: "cooldown s < 0" by (rule cooldown_neg[OF cs])
  have u: "activation s' < 0 \<and>
            (\<forall>ps. int (length ps) \<le> 16384 div chunk_size s \<longrightarrow>
               (\<exists>s''. feed s' ps = Inr (s'', replicate (length ps) False)))"
    if "update mf it s chunk = Some (Inr (s', True))"
  proof -
    let ?s0 = "s\<lparr>is_found := False, chunk_buffer := chunk_buffer s @ chunk, probability := None\<rparr>"
    from that have p: "process mf it ?s0 = Some (Inr s')" and f: "is_found s'"
      by (auto simp: update_def split: option.splits sum.splits)
    have c0: "same_configuration ?s0 s" by (simp add: same_configuration_def)
    from process_found[OF p _ f] same_configuration_cooldown[OF c0]
    have a: "activation s' = cooldown s" by simp
    from process_same[OF p] c0 have "same_configuration s' s"
      by (rule same_configuration_trans)
    with a neg quiet show ?thesis by simp
  qed
  have d: "trigger_level s < activation s + 1 \<and> activation s1 < 0 \<and>
            (\<forall>ps. int (length ps) \<le> 16384 div chunk_size s \<longrightarrow>
               (\<exists>s''. feed s1 ps = Inr (s'', replicate (length ps) False)))"
    if "decode s p = Inr (s1, True)"
    using decode_fired[OF that] decode_same[OF that] neg quiet by simp
  from u d show ?thesis by blast
qed

theorem cooldown_suppression_witness:
  "1 \<le> chunk_size stub_engine \<and> 0 \<le> trigger_level stub_engine \<and>
   update stub_extractor (stub_scorer (19 / 20)) stub_engine [0, 0] =
     Some (Inr (stub_engine\<lparr>inputs := [[0]], inputs_idx := 1, activation := - 8,
                   is_found := True, probability := Some (19 / 20)\<rparr>, True)) \<and>
   (\<exists>s''. feed (stub_engine\<lparr>inputs := [[0]], inputs_idx := 1, activation := - 8,
                   is_found := True, probability := Some (19 / 20)\<rparr>)
              [19 / 20, 1 / 10, 19 / 20] =
            Inr (s'', replicate (length [19 / 20, 1 / 10, 19 / 20 :: real]) False))"
proof -
  let ?s' = "stub_engine\<lparr>inputs := [[0]], inputs_idx := 1, activation := - 8,
                   is_found := True, probability := Some (19 / 20)\<rparr>"
  have cs: "1 \<le> chunk_size stub_engine" and lvl: "0 \<le> trigger_level stub_engine"
    by (simp_all add: stub_engine_def)
  have u: "update stub_extractor (stub_scorer (19 / 20)) stub_engine [0, 0] = Some (Inr (?s', True))"
    apply (simp add: update_def)
    apply (subst process.simps)
    apply (simp add: stub_engine_def iteration_def insert_mfccs_def buffer_to_audio_def
        stub_extractor_def stub_scorer_def py_from_def assign_rows_def slice_bound_def
        broadcast_row_def score_def decode_def Let_def le_i2_def MAX_WAV_VALUE_def)
    done
  have len: "int (length [19 / 20, 1 / 10, 19 / 20 :: real]) \<le> 16384 div chunk_size stub_engine"
    by (simp add: stub_engine_def)
  from cooldown_suppression[OF cs lvl, of stub_extractor "stub_scorer (19 / 20)" "[0, 0]" ?s']
  have "\<forall>ps. int (length ps) \<le> 16384 div chunk_size stub_engine \<longrightarrow>
               (\<exists>s''. feed ?s' ps = Inr (s'', replicate (length ps) False))"
    using u by blast
  from this[rule_format, OF len] cs lvl u show ?thesis by blast
qed

section \<open>Claims about update and reset\<close>

text \<open>
  C4. In a pass of the loop of \<open>update\<close> that reaches the interpreter, a probability
  below 0 or above 1 is dropped: the step returns the state it was given (the state after
  the frames were inserted) without \<open>break\<close>; the activation counter, the trigger flag
  and the stored probability are those from before the pass; and the loop goes on from that
  state with the audio that is left.
\<close>

theorem out_of_range_probability_discarded:
  assumes w: "window_bytes s \<le> int (length (chunk_buffer s))"
    and ins: "insert_mfccs mf s = Inr (s1, True)"
    and oor: "it (inputs s1) < 0 \<or> 1 < it (inputs s1)"
  shows "score it s1 = Inr (s1, False) \<and> iteration mf it s = Inr (s1, False) \<and>
         activation s1 = activation s \<and> is_found s1 = is_found s \<and>
         probability s1 = probability s \<and>
         process mf it s = process mf it s1"
proof -
  have sc: "score it s1 = Inr (s1, False)"
    using oor by (auto simp: score_def Let_def)
  with ins have i: "iteration mf it s = Inr (s1, False)"
    by (simp add: iteration_def)
  have "process mf it s = process mf it s1"
    by (subst process.simps) (simp add: w i)
  with sc i insert_mfccs_same[OF ins] show ?thesis by simp
qed

theorem out_of_range_probability_discarded_witness:
  "window_bytes stub_engine
     \<le> int (length (chunk_buffer (stub_engine\<lparr>chunk_buffer := [1, 0]\<rparr>))) \<and>
   insert_mfccs stub_extractor (stub_engine\<lparr>chunk_buffer := [1, 0]\<rparr>) =
     Inr (stub_engine\<lparr>chunk_buffer := [], inputs := [[1 / 32768]], inputs_idx := 1\<rparr>, True) \<and>
   1 < stub_scorer (3 / 2) [[1 / 32768]] \<and>
   iteration stub_extractor (stub_scorer (3 / 2)) (stub_engine\<lparr>chunk_buffer := [1, 0]\<rparr>) =
     Inr (stub_engine\<lparr>chunk_buffer := [], inputs := [[1 / 32768]], inputs_idx := 1\<rparr>, False)"
proof -
  let ?s = "stub_engine\<lparr>chunk_buffer := [1, 0]\<rparr>"
  let ?s1 = "stub_engine\<lparr>chunk_buffer := [], inputs := [[1 / 32768]], inputs_idx := 1\<rparr>"
  have w: "window_bytes ?s \<le> int (length (chunk_buffer ?s))"
    by (simp add: stub_engine_def)
  have ins: "insert_mfccs stub_extractor ?s = Inr (?s1, True)"
    by (simp add: stub_engine_def insert_mfccs_def buffer_to_audio_def
        stub_extractor_def py_from_def assign_rows_def slice_bound_def
        broadcast_row_def Let_def le_i2_def MAX_WAV_VALUE_def)
  have oor: "stub_scorer (3 / 2) (inputs ?s1) < 0 \<or> 1 < stub_scorer (3 / 2) (inputs ?s1)"
    by (simp add: stub_scorer_def)
  from out_of_range_probability_discarded
         [where it = "stub_scorer (3 / 2)" and mf = stub_extractor and s = ?s and ?s1.0 = ?s1,
          OF w ins oor] w ins oor
  show ?thesis
    by (simp add: stub_scorer_def)
qed

text \<open>
  C10. With a trigger level of at least 0 and a chunk size of at least 1, the activation
  counter lies between \<open>floor(-16384 / chunk_size)\<close> and the trigger level after
  construction, after \<open>reset\<close>, after every scoring step (which always completes), after
  every pass of the loop and after every call of \<open>update\<close> that returns.
\<close>

theorem activation_stays_bounded:
  assumes lvl: "0 \<le> trigger_level s" and cs: "1 \<le> chunk_size s"
  shows "(\<exists>s0. init (sensitivity s) (trigger_level s) (chunk_size s) = Inr s0 \<and>
               activation_bounded s0) \<and>
         (\<forall>s'. reset s = Inr s' \<longrightarrow> activation_bounded s') \<and>
         (activation_bounded s \<longrightarrow>
            (\<exists>s' b. score it s = Inr (s', b) \<and> activation_bounded s') \<and>
            (\<forall>s' b. iteration mf it s = Inr (s', b) \<longrightarrow> activation_bounded s') \<and>
            (\<forall>s' f. update mf it s chunk = Some (Inr (s', f)) \<longrightarrow> activation_bounded s'))"
proof -
  have i: "\<exists>s0. init (sensitivity s) (trigger_level s) (chunk_size s) = Inr s0 \<and>
               activation_bounded s0"
    using lvl cs cooldown_neg[of s]
    by (simp add: init_eq activation_bounded_iff cooldown_def)
  have r: "\<forall>s'. reset s = Inr s' \<longrightarrow> activation_bounded s'"
    using reset_bounded[OF lvl cs] by blast
  have sc: "\<exists>s' b. score it s = Inr (s', b) \<and> activation_bounded s'" if "activation_bounded s"
    using score_total[of s it] cs score_bounded[OF lvl cs that] by fastforce
  have it: "\<forall>s' b. iteration mf it s = Inr (s', b) \<longrightarrow> activation_bounded s'"
    if "activation_bounded s"
    using iteration_bounded[OF lvl cs that] by blast
  have u: "activation_bounded s'" if b: "activation_bounded s"
    and "update mf it s chunk = Some (Inr (s', f))" for s' f
  proof -
    let ?s0 = "s\<lparr>is_found := False, chunk_buffer := chunk_buffer s @ chunk, probability := None\<rparr>"
    from that(2) have p: "process mf it ?s0 = Some (Inr s')"
      by (auto simp: update_def split: option.splits sum.splits)
    show ?thesis
      using process_bounded[OF p] lvl cs b by (simp add: activation_bounded_def)
  qed
  from i r sc it u show ?thesis by blast
qed

theorem activation_stays_bounded_witness:
  "0 \<le> trigger_level stub_engine \<and> 1 \<le> chunk_size stub_engine \<and>
   activation_bounded stub_engine \<and>
   (\<exists>s' b. score (stub_scorer (19 / 20)) stub_engine = Inr (s', b) \<and> activation_bounded s')"
proof -
  have lvl: "0 \<le> trigger_level stub_engine" and cs: "1 \<le> chunk_size stub_engine"
    and b: "activation_bounded stub_engine"
    by (simp_all add: stub_engine_def activation_bounded_def)
  from activation_stays_bounded[OF lvl cs, of "stub_scorer (19 / 20)"] b lvl cs
  show ?thesis by blast
qed

text \<open>
  C5. For an engine \<open>s\<close> with the configuration of a freshly constructed one, \<open>reset\<close>
  succeeds and gives the fresh engine except for the stale last probability, which every
  \<open>update\<close> overwrites before it can be read: the window is zero, the cursor 0, the chunk
  buffer empty, the activation 0, the trigger flag False, the configuration that of \<open>s\<close>;
  and for every extractor, scorer and list of chunks the calls of \<open>update\<close> return the same
  values and probabilities (or raise, or hang, alike) from both.
\<close>

theorem reset_like_fresh_instance:
  assumes fresh: "init sens lvl csz = Inr s0" and cfg: "same_configuration s s0"
  shows "\<exists>s'. reset s = Inr s' \<and>
           s' = s0\<lparr>probability := probability s\<rparr> \<and>
           inputs s' = replicate 29 (replicate 13 0) \<and> inputs_idx s' = 0 \<and>
           chunk_buffer s' = [] \<and> activation s' = 0 \<and> \<not> is_found s' \<and>
           same_configuration s' s \<and>
           (\<forall>mf it chunks. update_all mf it s' chunks = update_all mf it s0 chunks)"
proof -
  let ?s0 = "\<lparr> sensitivity = sens, trigger_level = lvl, chunk_size = csz,
           params = ListenerParams_default, inputs = replicate 29 (replicate 13 0),
           inputs_idx = 0, window_bytes = 3200, hop_bytes = 1600, chunk_buffer = [],
           activation = 0, is_found = False, probability = None \<rparr>"
  from fresh have s0: "s0 = ?s0" by (simp add: init_eq)
  let ?s' = "s\<lparr>inputs := replicate 29 (replicate 13 0), activation := 0, is_found := False,
                inputs_idx := 0, chunk_buffer := []\<rparr>"
  have p: "params s = ListenerParams_default"
    using cfg s0 by (simp add: same_configuration_def)
  have r: "reset s = Inr ?s'"
    by (simp add: reset_def p n_features_default zeros_def)
       (simp add: ListenerParams_default_def)
  have e: "?s' = s0\<lparr>probability := probability s\<rparr>"
    using cfg s0 by (simp add: same_configuration_def)
  have u: "update_all mf it ?s' chunks = update_all mf it s0 chunks" for mf it chunks
    by (simp only: e update_all_ignores_probability)
  have "same_configuration ?s' s" by (simp add: same_configuration_def)
  with r e u show ?thesis by (simp add: s0)
qed

theorem reset_like_fresh_instance_witness:
  "\<exists>s0. init (7 / 10) 4 2048 = Inr s0 \<and>
     same_configuration
       (s0\<lparr>inputs := [], inputs_idx := 7, chunk_buffer := [1], activation := 3,
            is_found := True, probability := Some (1 / 2)\<rparr>) s0 \<and>
     (\<exists>s'. reset (s0\<lparr>inputs := [], inputs_idx := 7, chunk_buffer := [1], activation := 3,
                        is_found := True, probability := Some (1 / 2)\<rparr>) = Inr s' \<and>
           s' = s0\<lparr>probability := Some (1 / 2)\<rparr> \<and>
           (\<forall>mf it chunks. update_all mf it s' chunks = update_all mf it s0 chunks))"
proof -
  obtain s0 where fresh: "init (7 / 10) 4 2048 = Inr s0"
    by (simp add: init_eq)
  let ?s = "s0\<lparr>inputs := [], inputs_idx := 7, chunk_buffer := [1], activation := 3,
               is_found := True, probability := Some (1 / 2)\<rparr>"
  have cfg: "same_configuration ?s s0"
    by (simp add: same_configuration_def)
  from reset_like_fresh_instance[OF fresh cfg] fresh cfg show ?thesis
    by auto
qed

section \<open>Claims about the audio codec\<close>

text \<open>
  C7. A buffer of odd length makes \<open>buffer_to_audio\<close> fail with the invalid-length error
  (the \<open>ValueError\<close> of \<open>np.frombuffer\<close>) and nothing is decoded; a buffer of even length
  gives exactly half as many samples as bytes, sample \<open>i\<close> being the signed 16-bit value of
  bytes \<open>2 i\<close> (low) and \<open>2 i + 1\<close> (high) divided by 32768.
\<close>

theorem buffer_to_audio_contract:
  "(odd (length b) \<longrightarrow> buffer_to_audio b = Inl InvalidAudioLength) \<and>
   (even (length b) \<longrightarrow>
      (\<exists>audio. buffer_to_audio b = Inr audio \<and> length audio = length b div 2 \<and>
         (\<forall>i<length b div 2.
            audio ! i =
              real_of_int
                (let u = uint (b ! (2 * i)) + 256 * uint (b ! (2 * i + 1))
                 in if u < 32768 then u else u - 65536) / 32768)))"
proof (intro conjI impI)
  assume "odd (length b)"
  then show "buffer_to_audio b = Inl InvalidAudioLength"
    by (simp add: buffer_to_audio_def odd_iff_mod_2_eq_one)
next
  assume e: "even (length b)"
  let ?audio = "map (\<lambda>w. real_of_int (sint w) / real_of_int MAX_WAV_VALUE) (frombuffer_i2 b)"
  have r: "buffer_to_audio b = Inr ?audio"
    using e by (simp add: buffer_to_audio_def even_iff_mod_2_eq_zero)
  have n: "?audio ! i =
              real_of_int
                (let u = uint (b ! (2 * i)) + 256 * uint (b ! (2 * i + 1))
                 in if u < 32768 then u else u - 65536) / 32768"
    if "i < length b div 2" for i
  proof -
    have "?audio ! i = real_of_int (sint (le_i2 (b ! (2 * i)) (b ! (2 * i + 1)))) / real_of_int MAX_WAV_VALUE"
      using that by (simp only: nth_map length_frombuffer_i2 nth_frombuffer_i2)
    then show ?thesis
      by (simp only: sint_16 uint_le_i2 Let_def MAX_WAV_VALUE_def)
  qed
  show "\<exists>audio. buffer_to_audio b = Inr audio \<and> length audio = length b div 2 \<and>
         (\<forall>i<length b div 2.
            audio ! i =
              real_of_int
                (let u = uint (b ! (2 * i)) + 256 * uint (b ! (2 * i + 1))
                 in if u < 32768 then u else u - 65536) / 32768)"
    using r n by (intro exI[of _ ?audio]) (simp add: length_frombuffer_i2)
qed

theorem buffer_to_audio_contract_witness:
  "buffer_to_audio [0, 128, 1] = Inl InvalidAudioLength \<and>
   (\<exists>audio. buffer_to_audio [0, 128, 1, 0] = Inr audio \<and> length audio = 2 \<and>
      audio ! 0 = - 1 \<and> audio ! 1 = 1 / 32768)"
proof -
  from buffer_to_audio_contract[of "[0, 128, 1]"]
  have a: "buffer_to_audio [0, 128, 1] = Inl InvalidAudioLength" by simp
  from buffer_to_audio_contract[of "[0, 128, 1, 0]"]
  obtain audio where r: "buffer_to_audio [0, 128, 1, 0] = Inr audio" "length audio = 2"
    and n: "\<forall>i<2. audio ! i =
              real_of_int
                (let u = uint ([0, 128, 1, 0 :: byte] ! (2 * i)) + 256 * uint ([0, 128, 1, 0 :: byte] ! (2 * i + 1))
                 in if u < 32768 then u else u - 65536) / 32768"
    by auto
  from n have "audio ! 0 = - 1" by (drule_tac x = 0 in spec) simp
  moreover from n have "audio ! 1 = 1 / 32768" by (drule_tac x = 1 in spec) simp
  ultimately show ?thesis using a r by simp
qed

text \<open>
  C8. For a buffer of even length, decoding and encoding again gives the buffer itself,
  so doing it twice gives what doing it once gives.
\<close>

theorem codec_round_trip:
  assumes "even (length b)"
  shows "decode_encode b = Some b \<and>
         Option.bind (decode_encode b) decode_encode = decode_encode b"
proof -
  have "decode_encode b = Some b"
    using assms
    by (simp add: decode_encode_def buffer_to_audio_def even_iff_mod_2_eq_zero
        audio_to_buffer_decoded concat_tobytes_frombuffer)
  then show ?thesis by simp
qed

theorem codec_round_trip_witness:
  "even (length [0, 128, 255, 127 :: byte]) \<and>
   decode_encode [0, 128, 255, 127] = Some [0, 128, 255, 127]"
  using codec_round_trip[of "[0, 128, 255, 127]"] by simp

text \<open>
  C9, as the text has it, fails: the encoder does not clamp. The sample \<open>1/2\<close> is encoded
  as 16384 and the larger sample 1 as \<open>-32768\<close> (bytes \<open>00 80\<close>), neither above 16384 nor
  the saturated value 32767.
\<close>

theorem encoder_wraps_counterexample:
  "map_option sint (encode_sample (1 / 2)) = Some 16384 \<and>
   map_option sint (encode_sample 1) = Some (- 32768) \<and>
   audio_to_buffer [1 / 2, 1] = Some [0, 64, 0, 128]"
  by (simp add: encode_sample_def astype_i2_def py_int_def MAX_WAV_VALUE_def tobytes_i2_def)

text \<open>
  C9, amended. On samples from \<open>-1\<close> up to but not including 1 the encoder is monotonic,
  the encoded integer being the sample times 32768 truncated towards zero. A sample
  outside that range is not clamped: as long as the scaled value fits in 32 bits, the
  encoded integer is that value reduced modulo \<open>2 ^ 16\<close> into the signed range.
\<close>

theorem encoder_monotone_in_range:
  "(- 1 \<le> x \<and> x \<le> y \<and> y < 1 \<longrightarrow>
      (\<exists>v w. encode_sample x = Some v \<and> encode_sample y = Some w \<and>
             sint v = py_int (x * 32768) \<and> sint w = py_int (y * 32768) \<and> sint v \<le> sint w)) \<and>
   (- 65536 \<le> x \<and> x < 65536 \<longrightarrow>
      (\<exists>w. encode_sample x = Some w \<and>
           sint w = (py_int (x * 32768) + 32768) mod 65536 - 32768))"
proof (intro conjI impI)
  assume a: "- 1 \<le> x \<and> x \<le> y \<and> y < 1"
  have enc: "encode_sample z = Some (word_of_int (py_int (z * 32768))) \<and>
             sint (word_of_int (py_int (z * 32768)) :: int16) = py_int (z * 32768)"
    if z: "- 1 \<le> z" "z < 1" for z
  proof -
    have b: "- 32768 \<le> py_int (z * 32768) \<and> py_int (z * 32768) < 32768"
      using z by (intro py_int_bounds) simp_all
    then have "(py_int (z * 32768) + 32768) mod 65536 = py_int (z * 32768) + 32768"
      by (intro mod_pos_pos_trivial) simp_all
    then have "sint (word_of_int (py_int (z * 32768)) :: int16) = py_int (z * 32768)"
      by (simp add: sint_of_int_16)
    with b show ?thesis
      by (simp add: encode_sample_def astype_i2_def MAX_WAV_VALUE_def)
  qed
  from a have "py_int (x * 32768) \<le> py_int (y * 32768)"
    by (intro py_int_mono) simp
  with enc[of x] enc[of y] a
  show "\<exists>v w. encode_sample x = Some v \<and> encode_sample y = Some w \<and>
             sint v = py_int (x * 32768) \<and> sint w = py_int (y * 32768) \<and> sint v \<le> sint w"
    by auto
next
  assume a: "- 65536 \<le> x \<and> x < 65536"
  then have "- 2147483648 \<le> py_int (x * 32768) \<and> py_int (x * 32768) < 2147483648"
    by (intro py_int_bounds) simp_all
  then show "\<exists>w. encode_sample x = Some w \<and>
           sint w = (py_int (x * 32768) + 32768) mod 65536 - 32768"
    by (simp add: encode_sample_def astype_i2_def MAX_WAV_VALUE_def sint_of_int_16)
qed

theorem encoder_monotone_in_range_witness:
  "(\<exists>v w. encode_sample (- 1) = Some v \<and> encode_sample (1 / 2) = Some w \<and>
          sint v = - 32768 \<and> sint w = 16384 \<and> sint v \<le> sint w) \<and>
   (\<exists>w. encode_sample 1 = Some w \<and> sint w = - 32768)"
proof -
  have "- 1 \<le> (- 1 :: real) \<and> (- 1 :: real) \<le> 1 / 2 \<and> (1 / 2 :: real) < 1" by simp
  with encoder_monotone_in_range[of "- 1" "1 / 2"]
  obtain v w where "encode_sample (- 1) = Some v" "encode_sample (1 / 2) = Some w"
    "sint v = py_int (- 1 * 32768)" "sint w = py_int (1 / 2 * 32768)" "sint v \<le> sint w"
    by blast
  then have a: "\<exists>v w. encode_sample (- 1) = Some v \<and> encode_sample (1 / 2) = Some w \<and>
          sint v = - 32768 \<and> sint w = 16384 \<and> sint v \<le> sint w"
    by (auto simp: py_int_def)
  have "- 65536 \<le> (1 :: real) \<and> (1 :: real) < 65536" by simp
  with encoder_monotone_in_range[of 1 1]
  obtain u where "encode_sample 1 = Some u"
    "sint u = (py_int (1 * 32768) + 32768) mod 65536 - 32768"
    by blast
  then have "\<exists>w. encode_sample 1 = Some w \<and> sint w = - 32768"
    by (simp add: py_int_def)
  with a show ?thesis by blast
qed

section \<open>Claims about the listener parameters\<close>

text \<open>
  C6. With a sample rate of 16000, a buffer of 1.5 s, a window of 0.1 s and a hop of
  0.05 s (whatever the other fields), the window has 1600 samples, the hop 800, the buffer
  a multiple of 800 that is at most 24000, and the number of features is 1 plus the floor
  of (buffer samples - 1600) / 800. For every configuration whose hop is positive, the
  buffer is a multiple of the hop.
\<close>

theorem listener_geometry:
  "(let p = q\<lparr>sample_rate := 16000, buffer_t := 3 / 2, window_t := 1 / 10, hop_t := 1 / 20\<rparr>
    in window_samples p = 1600 \<and> hop_samples p = 800 \<and>
       (\<exists>bs. buffer_samples p = Inr bs \<and> 800 dvd bs \<and> bs \<le> 24000 \<and>
             n_features p = Inr (1 + \<lfloor>real_of_int (bs - 1600) / 800\<rfloor>))) \<and>
   (0 < hop_samples q \<longrightarrow> (\<exists>bs. buffer_samples q = Inr bs \<and> hop_samples q dvd bs))"
proof (intro conjI impI)
  let ?p = "q\<lparr>sample_rate := 16000, buffer_t := 3 / 2, window_t := 1 / 10, hop_t := 1 / 20\<rparr>"
  have w: "window_samples ?p = 1600" and h: "hop_samples ?p = 800"
    by (simp_all add: window_samples_def hop_samples_def py_int_def)
  have b: "buffer_samples ?p = Inr 24000"
    by (simp add: buffer_samples_def h) (simp add: py_int_def)
  have n: "n_features ?p = Inr (1 + \<lfloor>real_of_int (24000 - 1600) / 800\<rfloor>)"
    by (simp add: n_features_def b h w)
  show "let p = ?p
    in window_samples p = 1600 \<and> hop_samples p = 800 \<and>
       (\<exists>bs. buffer_samples p = Inr bs \<and> 800 dvd bs \<and> bs \<le> 24000 \<and>
             n_features p = Inr (1 + \<lfloor>real_of_int (bs - 1600) / 800\<rfloor>))"
    unfolding Let_def using w h b n by simp
next
  assume "0 < hop_samples q"
  then show "\<exists>bs. buffer_samples q = Inr bs \<and> hop_samples q dvd bs"
    by (simp add: buffer_samples_def Let_def)
qed

theorem listener_geometry_witness:
  "0 < hop_samples ListenerParams_default \<and>
   (\<exists>bs. buffer_samples ListenerParams_default = Inr bs \<and>
         hop_samples ListenerParams_default dvd bs)"
proof -
  have h: "0 < hop_samples ListenerParams_default"
    by (simp add: hop_samples_def ListenerParams_default_def py_int_def)
  with listener_geometry[of ListenerParams_default] show ?thesis by blast
qed

end
